theory Spec2Isabelle
  imports Complex_Main "HOL-Library.Sublist"
begin

unbundle bit_operations_syntax

section \<open>Python strings\<close>

text \<open>
  A Python \<open>str\<close> is modelled as a \<open>string\<close>: a list of characters with code points
  \<open>0..255\<close>, so \<open>length\<close> is Python's \<open>len\<close> on text of that range. The character
  tables below are Python's on that range. Font sizes are Python floats; they are modelled
  as exact rationals, and the decimal constants of the source (\<open>1.2\<close>, \<open>1.05\<close>, ...) as the
  rationals they denote.
\<close>

text \<open>The characters for which \<open>str.isspace\<close> holds, which are also those \<open>\s\<close> matches.\<close>

definition whitespace_chars :: "char list" where
  "whitespace_chars =
     [CHR 0x09, CHR 0x0A, CHR 0x0B, CHR 0x0C, CHR 0x0D, CHR 0x1C, CHR 0x1D, CHR 0x1E,
      CHR 0x1F, CHR 0x20, CHR 0x85, CHR 0xA0]"

definition digits :: "char list" where
  "digits = ''0123456789''"

definition ascii_uppercase :: "char list" where
  "ascii_uppercase = ''ABCDEFGHIJKLMNOPQRSTUVWXYZ''"

definition ascii_lowercase :: "char list" where
  "ascii_lowercase = ''abcdefghijklmnopqrstuvwxyz''"

text \<open>The cased letters above code point 127: \<open>0xC0..0xDE\<close> without \<open>0xD7\<close> are upper
  case and map to \<open>0xE0..0xFE\<close> without \<open>0xF7\<close>.\<close>

definition latin1_uppercase :: "char list" where
  "latin1_uppercase =
     [CHR 0xC0, CHR 0xC1, CHR 0xC2, CHR 0xC3, CHR 0xC4, CHR 0xC5, CHR 0xC6, CHR 0xC7,
      CHR 0xC8, CHR 0xC9, CHR 0xCA, CHR 0xCB, CHR 0xCC, CHR 0xCD, CHR 0xCE, CHR 0xCF,
      CHR 0xD0, CHR 0xD1, CHR 0xD2, CHR 0xD3, CHR 0xD4, CHR 0xD5, CHR 0xD6,
      CHR 0xD8, CHR 0xD9, CHR 0xDA, CHR 0xDB, CHR 0xDC, CHR 0xDD, CHR 0xDE]"

definition latin1_lowercase :: "char list" where
  "latin1_lowercase =
     [CHR 0xE0, CHR 0xE1, CHR 0xE2, CHR 0xE3, CHR 0xE4, CHR 0xE5, CHR 0xE6, CHR 0xE7,
      CHR 0xE8, CHR 0xE9, CHR 0xEA, CHR 0xEB, CHR 0xEC, CHR 0xED, CHR 0xEE, CHR 0xEF,
      CHR 0xF0, CHR 0xF1, CHR 0xF2, CHR 0xF3, CHR 0xF4, CHR 0xF5, CHR 0xF6,
      CHR 0xF8, CHR 0xF9, CHR 0xFA, CHR 0xFB, CHR 0xFC, CHR 0xFD, CHR 0xFE]"

text \<open>Lower-case characters that have no upper-case partner in the range.\<close>

definition other_lowercase :: "char list" where
  "other_lowercase = [CHR 0xAA, CHR 0xB5, CHR 0xBA, CHR 0xDF, CHR 0xFF]"

definition py_isspace :: "char \<Rightarrow> bool" where
  "py_isspace c = (c \<in> set whitespace_chars)"

definition lower_char :: "char \<Rightarrow> char" where
  "lower_char c =
     (case map_of (zip (ascii_uppercase @ latin1_uppercase) (ascii_lowercase @ latin1_lowercase)) c of
        None \<Rightarrow> c
      | Some d \<Rightarrow> d)"

definition upper_char :: "char \<Rightarrow> char" where
  "upper_char c =
     (case map_of (zip (ascii_lowercase @ latin1_lowercase) (ascii_uppercase @ latin1_uppercase)) c of
        None \<Rightarrow> c
      | Some d \<Rightarrow> d)"

text \<open>The upper-case forms of \<open>0xB5\<close> and \<open>0xFF\<close> lie beyond the range; \<open>upper_char\<close> leaves
  them as they are. It is used only to match a character against the classes of the
  patterns, which hold ASCII characters.\<close>

text \<open>\<open>str.lower()\<close>, \<open>str.strip()\<close>, \<open>str.isupper()\<close> and the substring test \<open>k in s\<close>.\<close>

definition py_lower :: "string \<Rightarrow> string" where
  "py_lower s = map lower_char s"

definition py_strip :: "string \<Rightarrow> string" where
  "py_strip s = rev (dropWhile py_isspace (rev (dropWhile py_isspace s)))"

definition py_isupper :: "string \<Rightarrow> bool" where
  "py_isupper s =
     (\<not> list_ex (\<lambda>c. c \<in> set (ascii_lowercase @ latin1_lowercase @ other_lowercase)) s \<and>
      list_ex (\<lambda>c. c \<in> set (ascii_uppercase @ latin1_uppercase)) s)"

fun py_contains :: "string \<Rightarrow> string \<Rightarrow> bool" where
  "py_contains k [] = (k = [])"
| "py_contains k (c # cs) = (prefix k (c # cs) \<or> py_contains k cs)"

section \<open>Regular expressions\<close>

text \<open>
  The fragment of Python's \<open>re\<close> syntax that the extractor uses: the anchors \<open>^\<close> and
  \<open>$\<close>, character classes (a literal is a class of one character), sequence,
  alternation and the greedy star; \<open>r+\<close> is \<open>r r*\<close> and \<open>r?\<close> is \<open>r|\<close>.
\<close>

datatype regex =
    Bol
  | Eol
  | Epsilon
  | Cls "char list"
  | Seq regex regex
  | Alt regex regex
  | Star regex

definition OneOrMore :: "regex \<Rightarrow> regex" where
  "OneOrMore r = Seq r (Star r)"

definition Optional :: "regex \<Rightarrow> regex" where
  "Optional r = Alt r Epsilon"

definition seqs :: "regex list \<Rightarrow> regex" where
  "seqs rs = foldr Seq rs Epsilon"

definition lit :: "string \<Rightarrow> regex" where
  "lit s = seqs (map (\<lambda>c. Cls [c]) s)"

text \<open>With \<open>re.IGNORECASE\<close> (\<open>ic\<close>) a class also matches a character whose lower-case or
  upper-case form is in the class.\<close>

definition cls_match :: "bool \<Rightarrow> char list \<Rightarrow> char \<Rightarrow> bool" where
  "cls_match ic cs c =
     (c \<in> set cs \<or> (ic \<and> (lower_char c \<in> set cs \<or> upper_char c \<in> set cs)))"

text \<open>
  A matcher state is the text still to be read and whether the position is the start of
  the string. \<open>rests ic r st\<close> lists the states in which a match of \<open>r\<close> begun at \<open>st\<close> can end, in
  the order in which the backtracking matcher finds them (greedy repetition first).
  Without \<open>re.MULTILINE\<close>, \<open>$\<close> matches at the end of the string and before a final
  newline.
\<close>

type_synonym mstate = "bool \<times> string"

function rests :: "bool \<Rightarrow> regex \<Rightarrow> mstate \<Rightarrow> mstate list" where
  "rests ic Bol st = (if fst st then [st] else [])"
| "rests ic Eol st = (if snd st = [] \<or> snd st = [CHR 0x0A] then [st] else [])"
| "rests ic Epsilon st = [st]"
| "rests ic (Cls cs) st =
     (case snd st of [] \<Rightarrow> [] | c # t \<Rightarrow> if cls_match ic cs c then [(False, t)] else [])"
| "rests ic (Seq r1 r2) st = concat (map (rests ic r2) (rests ic r1 st))"
| "rests ic (Alt r1 r2) st = rests ic r1 st @ rests ic r2 st"
| "rests ic (Star r) st =
     concat (map (rests ic (Star r))
       (filter (\<lambda>st'. length (snd st') < length (snd st)) (rests ic r st))) @ [st]"
  by pat_completeness auto
termination
  by (relation "measures [\<lambda>(ic, r, st). size r, \<lambda>(ic, r, st). length (snd st)]") auto

text \<open>\<open>re.match\<close> tries the pattern at the start of the string only; \<open>re.search\<close> tries
  every position from the left.\<close>

definition re_match :: "bool \<Rightarrow> regex \<Rightarrow> string \<Rightarrow> bool" where
  "re_match ic r s = (rests ic r (True, s) \<noteq> [])"

fun re_search_from :: "bool \<Rightarrow> regex \<Rightarrow> bool \<Rightarrow> string \<Rightarrow> bool" where
  "re_search_from ic r b [] = (rests ic r (b, []) \<noteq> [])"
| "re_search_from ic r b (c # t) = (rests ic r (b, c # t) \<noteq> [] \<or> re_search_from ic r False t)"

definition re_search :: "bool \<Rightarrow> regex \<Rightarrow> string \<Rightarrow> bool" where
  "re_search ic r s = re_search_from ic r True s"

text \<open>
  \<open>re.sub(r, repl, s)\<close> with a constant replacement: at each position from the left the
  first match found is replaced and the scan goes on where it ended; a character at
  which nothing matches is copied. An empty match is replaced and the scan moves on by
  one character.
\<close>

function re_sub_from :: "regex \<Rightarrow> string \<Rightarrow> bool \<Rightarrow> string \<Rightarrow> string" where
  "re_sub_from r repl b s =
     (case rests False r (b, s) of
        [] \<Rightarrow> (case s of [] \<Rightarrow> [] | c # t \<Rightarrow> c # re_sub_from r repl False t)
      | st # _ \<Rightarrow>
          if length (snd st) < length s then repl @ re_sub_from r repl False (snd st)
          else repl @ (case s of [] \<Rightarrow> [] | c # t \<Rightarrow> c # re_sub_from r repl False t))"
  by pat_completeness auto
termination
  by (relation "measure (\<lambda>(r, repl, b, s). length s)") auto

declare re_sub_from.simps [simp del]

definition re_sub :: "regex \<Rightarrow> string \<Rightarrow> string \<Rightarrow> string" where
  "re_sub r repl s = re_sub_from r repl True s"

section \<open>The patterns and keywords of \<open>OutlineExtractor.__init__\<close>\<close>

definition re_digit :: regex where
  "re_digit = Cls digits"

definition re_space :: regex where
  "re_space = Cls whitespace_chars"

definition re_letter :: regex where
  "re_letter = Cls (ascii_uppercase @ ascii_lowercase)"

text \<open>The tail \<open>[:\-\s]*[A-Za-z\s]*$\<close> that four of the patterns share.\<close>

definition label_tail :: "regex list" where
  "label_tail =
     [Star (Cls ('':-'' @ whitespace_chars)),
      Star (Cls (ascii_uppercase @ ascii_lowercase @ whitespace_chars)), Eol]"

definition heading_patterns :: "regex list" where
  "heading_patterns =
     [seqs [Bol, OneOrMore re_digit, Optional (Cls ''.''), OneOrMore re_space, Cls ascii_uppercase],
      seqs [Bol, Cls ascii_uppercase, OneOrMore (Cls (ascii_uppercase @ whitespace_chars @ ''&:'')), Eol],
      seqs ([Bol, lit ''Chapter'', OneOrMore re_space, OneOrMore re_digit] @ label_tail),
      seqs ([Bol, lit ''Section'', OneOrMore re_space, OneOrMore re_digit] @ label_tail),
      seqs ([Bol, lit ''Appendix'', OneOrMore re_space, OneOrMore (Cls (ascii_uppercase @ digits))] @ label_tail),
      seqs [Bol, OneOrMore re_digit, Cls ''.'', OneOrMore re_digit, Optional (Cls ''.''), OneOrMore re_space, re_letter],
      seqs [Bol, OneOrMore re_digit, Cls ''.'', OneOrMore re_digit, Cls ''.'', OneOrMore re_digit, Optional (Cls ''.''), OneOrMore re_space, re_letter],
      seqs [Bol, Cls ascii_uppercase, OneOrMore (Cls ascii_lowercase),
            Star (seqs [OneOrMore re_space, Cls ascii_uppercase, OneOrMore (Cls ascii_lowercase)]), Star re_space, Eol],
      seqs ([Bol, Cls ascii_uppercase, OneOrMore (Cls ascii_lowercase), OneOrMore re_space, OneOrMore re_digit] @ label_tail),
      seqs [Bol, Cls ''('', OneOrMore (Cls ''IVX''), Cls '')'', OneOrMore re_space, re_letter],
      seqs [Bol, Cls ascii_uppercase, Cls ''.'', OneOrMore re_space, re_letter]]"

definition heading_keywords :: "string list" where
  "heading_keywords =
     [''introduction'', ''abstract'', ''summary'', ''conclusion'', ''discussion'', ''results'',
      ''methods'', ''methodology'', ''analysis'', ''background'', ''literature'', ''review'',
      ''objectives'', ''goals'', ''findings'', ''recommendations'', ''references'', ''bibliography'',
      ''appendix'', ''chapter'', ''section'', ''part'', ''overview'', ''approach'', ''framework'']"

section \<open>Documents\<close>

text \<open>
  What the extractor reads of a PyMuPDF document: the metadata dictionary (or \<open>None\<close>) and,
  for each page, the blocks of \<open>get_text("dict")\<close>. A block has lines or not (an image
  block), a line is its spans, and a span has a text, a font size and style flags.
\<close>

record span =
  span_text :: string
  span_size :: rat
  span_flags :: int

type_synonym line = "span list"

type_synonym block = "line list option"

type_synonym page = "block list"

record document =
  metadata :: "(string \<rightharpoonup> string) option"
  pages :: "page list"

text \<open>The entries of \<open>all_text_info\<close>, the entries of the outline and the result of
  \<open>extract\<close>.\<close>

record text_info =
  ti_text :: string
  ti_font_size :: rat
  ti_font_flags :: int
  ti_page :: nat

record heading =
  h_level :: string
  h_text :: string
  h_page :: nat

record outline_result =
  title :: string
  outline :: "heading list"

datatype error = FileDataError | StatisticsError | ZeroDivisionError

section \<open>\<open>_extract_title\<close>\<close>

definition page_lines :: "page \<Rightarrow> line list" where
  "page_lines p = concat (map (\<lambda>b. case b of None \<Rightarrow> [] | Some ls \<Rightarrow> ls) p)"

definition page_spans :: "page \<Rightarrow> span list" where
  "page_spans p = concat (page_lines p)"

text \<open>The test of the second loop over the spans of the first page.\<close>

definition title_span :: "rat \<Rightarrow> span \<Rightarrow> bool" where
  "title_span max_font sp =
     (span_size sp = max_font \<and>
      (let text = py_strip (span_text sp)
       in 5 < length text \<and> length text < 200 \<and> re_search False re_letter text))"

definition first_page_title :: "document \<Rightarrow> string" where
  "first_page_title doc =
     (case pages doc of
        [] \<Rightarrow> ''Untitled Document''
      | first_page # _ \<Rightarrow>
          (case map span_size (page_spans first_page) of
             [] \<Rightarrow> ''Untitled Document''
           | x # xs \<Rightarrow>
               (let max_font = fold max xs x
                in case find (title_span max_font) (page_spans first_page) of
                     Some sp \<Rightarrow> py_strip (span_text sp)
                   | None \<Rightarrow> ''Untitled Document'')))"

definition extract_title :: "document \<Rightarrow> string" where
  "extract_title doc =
     (case metadata doc of
        None \<Rightarrow> first_page_title doc
      | Some m \<Rightarrow>
          (case m ''title'' of
             None \<Rightarrow> first_page_title doc
           | Some t \<Rightarrow>
               if t \<noteq> [] \<and> py_strip t \<noteq> [] \<and> length (py_strip t) < 200 then py_strip t
               else first_page_title doc))"

section \<open>\<open>_determine_heading_level\<close>\<close>

definition numbered_h1 :: regex where
  "numbered_h1 = seqs [Bol, OneOrMore re_digit, Optional (Cls ''.''), OneOrMore re_space, re_letter]"

definition numbered_h2 :: regex where
  "numbered_h2 = seqs [Bol, OneOrMore re_digit, Cls ''.'', OneOrMore re_digit, Optional (Cls ''.''), OneOrMore re_space, re_letter]"

definition numbered_h3 :: regex where
  "numbered_h3 =
     seqs [Bol, OneOrMore re_digit, Cls ''.'', OneOrMore re_digit, Cls ''.'', OneOrMore re_digit, Optional (Cls ''.''), OneOrMore re_space, re_letter]"

definition chapter_n :: regex where
  "chapter_n = seqs [Bol, lit ''Chapter'', OneOrMore re_space, OneOrMore re_digit]"

definition section_n :: regex where
  "section_n = seqs [Bol, lit ''Section'', OneOrMore re_space, OneOrMore re_digit]"

definition major_indicators :: "string list" where
  "major_indicators = [''introduction'', ''conclusion'', ''abstract'', ''summary'', ''references'']"

definition minor_indicators :: "string list" where
  "minor_indicators = [''methods'', ''results'', ''discussion'', ''analysis'', ''background'']"

text \<open>Bit \<open>2**4\<close> of the style flags is the bold flag.\<close>

definition bold :: "int \<Rightarrow> bool" where
  "bold font_flags = (font_flags AND 16 \<noteq> 0)"

definition determine_heading_level :: "string \<Rightarrow> rat \<Rightarrow> int \<Rightarrow> rat \<Rightarrow> error + string" where
  "determine_heading_level text font_size font_flags avg_font_size =
     (if re_match False numbered_h1 text then Inr ''H1''
      else if re_match False numbered_h2 text then Inr ''H2''
      else if re_match False numbered_h3 text then Inr ''H3''
      else if re_match True chapter_n text then Inr ''H1''
      else if re_match True section_n text then Inr ''H2''
      else if avg_font_size = 0 then Inl ZeroDivisionError
      else
        (let font_ratio = font_size / avg_font_size
         in if font_ratio > 16 / 10 then Inr ''H1''
            else if font_ratio > 13 / 10 then Inr ''H2''
            else if font_ratio > 11 / 10 then Inr ''H3''
            else if bold font_flags then
              (if font_ratio > 115 / 100 then Inr ''H2'' else Inr ''H3'')
            else if list_ex (\<lambda>indicator. py_contains indicator (py_lower text)) major_indicators
              then Inr ''H1''
            else if list_ex (\<lambda>indicator. py_contains indicator (py_lower text)) minor_indicators
              then Inr ''H2''
            else Inr ''H3''))"

section \<open>\<open>_clean_heading_text\<close>\<close>

definition ws_run :: regex where
  "ws_run = OneOrMore re_space"

definition page_number_tail :: regex where
  "page_number_tail = seqs [OneOrMore re_space, OneOrMore re_digit, Star re_space, Eol]"

definition leading_artifacts :: regex where
  "leading_artifacts = seqs [Bol, OneOrMore (Cls (''.-'' @ whitespace_chars))]"

definition trailing_artifacts :: regex where
  "trailing_artifacts = seqs [OneOrMore (Cls (''.-'' @ whitespace_chars)), Eol]"

definition clean_heading_text :: "string \<Rightarrow> string option" where
  "clean_heading_text text0 =
     (let text1 = py_strip (re_sub ws_run '' '' text0);
          text2 = re_sub page_number_tail '''' text1;
          text3 = re_sub leading_artifacts '''' text2;
          text4 = re_sub trailing_artifacts '''' text3
      in if length text4 > 2 then Some text4 else None)"

section \<open>\<open>_extract_headings\<close>\<close>

text \<open>One line of a page: the texts of its spans joined, the largest span size and the
  union of the span flags; a line whose stripped text is empty is left out.\<close>

definition line_info :: "nat \<Rightarrow> line \<Rightarrow> text_info option" where
  "line_info page_num spans =
     (let line_text = py_strip (concat (map span_text spans));
          line_font_size = fold (\<lambda>sp m. max m (span_size sp)) spans 0;
          line_font_flags = fold (\<lambda>sp f. f OR span_flags sp) spans 0
      in if line_text \<noteq> [] then
           Some \<lparr>ti_text = line_text, ti_font_size = line_font_size,
                 ti_font_flags = line_font_flags, ti_page = page_num + 1\<rparr>
         else None)"

definition collect_text_info :: "document \<Rightarrow> text_info list" where
  "collect_text_info doc =
     concat (map (\<lambda>(page_num, p). List.map_filter (line_info page_num) (page_lines p))
       (enumerate 0 (pages doc)))"

text \<open>\<open>statistics.mean\<close> raises \<open>StatisticsError\<close> on an empty list.\<close>

definition mean :: "rat list \<Rightarrow> error + rat" where
  "mean xs = (if xs = [] then Inl StatisticsError else Inr (sum_list xs / of_nat (length xs)))"

definition is_heading :: "string \<Rightarrow> rat \<Rightarrow> int \<Rightarrow> bool" where
  "is_heading text font_ratio font_flags =
     (font_ratio > 12 / 10 \<or>
      (bold font_flags \<and> font_ratio > 105 / 100) \<or>
      list_ex (\<lambda>pattern. re_match True pattern text) heading_patterns \<or>
      (py_isupper text \<and> 3 < length text \<and> length text < 50) \<or>
      list_ex (\<lambda>keyword. py_contains keyword (py_lower text)) heading_keywords)"

text \<open>The body of the loop over \<open>all_text_info\<close>: an error, no heading, or the heading
  to append.\<close>

definition classify :: "rat \<Rightarrow> text_info \<Rightarrow> error + heading option" where
  "classify avg_font_size info =
     (let text = ti_text info
      in if length text > 100 \<or> length text < 3 then Inr None
         else if avg_font_size = 0 then Inl ZeroDivisionError
         else if is_heading text (ti_font_size info / avg_font_size) (ti_font_flags info) then
           (case determine_heading_level text (ti_font_size info) (ti_font_flags info) avg_font_size of
              Inl e \<Rightarrow> Inl e
            | Inr heading_level \<Rightarrow>
                (case clean_heading_text text of
                   None \<Rightarrow> Inr None
                 | Some cleaned_text \<Rightarrow>
                     Inr (Some \<lparr>h_level = heading_level, h_text = cleaned_text,
                                 h_page = ti_page info\<rparr>)))
         else Inr None)"

fun collect_headings :: "rat \<Rightarrow> text_info list \<Rightarrow> error + heading list" where
  "collect_headings avg_font_size [] = Inr []"
| "collect_headings avg_font_size (info # infos) =
     (case classify avg_font_size info of
        Inl e \<Rightarrow> Inl e
      | Inr c \<Rightarrow>
          (case collect_headings avg_font_size infos of
             Inl e \<Rightarrow> Inl e
           | Inr headings \<Rightarrow> Inr (case c of None \<Rightarrow> headings | Some h \<Rightarrow> h # headings)))"

definition text_key :: "heading \<Rightarrow> string" where
  "text_key h = py_strip (py_lower (h_text h))"

fun unique_headings :: "string set \<Rightarrow> heading list \<Rightarrow> heading list" where
  "unique_headings seen_texts [] = []"
| "unique_headings seen_texts (h # hs) =
     (if text_key h \<notin> seen_texts \<and> length (h_text h) > 2
      then h # unique_headings (insert (text_key h) seen_texts) hs
      else unique_headings seen_texts hs)"

text \<open>Python's \<open>sorted\<close> is stable, as \<open>sort_key\<close> is.\<close>

definition assemble :: "heading list \<Rightarrow> heading list" where
  "assemble headings = unique_headings {} (sort_key h_page headings)"

definition extract_headings :: "document \<Rightarrow> error + heading list" where
  "extract_headings doc =
     (let all_text_info = collect_text_info doc
      in if all_text_info = [] then Inr []
         else
           (case mean (map ti_font_size all_text_info) of
              Inl e \<Rightarrow> Inl e
            | Inr avg_font_size \<Rightarrow>
                (case collect_headings avg_font_size all_text_info of
                   Inl e \<Rightarrow> Inl e
                 | Inr headings \<Rightarrow> Inr (assemble headings))))"

section \<open>\<open>extract\<close>\<close>

text \<open>\<open>opened\<close> is the outcome of \<open>fitz.open(pdf_path)\<close> and \<open>name\<close> is \<open>pdf_path.name\<close>.
  Whatever is raised inside the \<open>try\<close> is caught. (\<open>extract\<close> is a keyword
  of Isabelle, hence the longer name.)\<close>

definition extract_outline :: "string \<Rightarrow> error + document \<Rightarrow> outline_result" where
  "extract_outline name opened =
     (case opened of
        Inl e \<Rightarrow> \<lparr>title = ''Error processing '' @ name, outline = []\<rparr>
      | Inr doc \<Rightarrow>
          (case extract_headings doc of
             Inl e \<Rightarrow> \<lparr>title = ''Error processing '' @ name, outline = []\<rparr>
           | Inr hs \<Rightarrow> \<lparr>title = extract_title doc, outline = hs\<rparr>))"

section \<open>Functions the properties are stated with\<close>

subsection \<open>The steps of the normalizer, on lists\<close>

text \<open>The ends of a greedy repetition of a character class, longest first.\<close>

fun star_sufs :: "(char \<Rightarrow> bool) \<Rightarrow> string \<Rightarrow> string list" where
  "star_sufs P [] = [[]]"
| "star_sufs P (c # t) = (if P c then star_sufs P t @ [c # t] else [c # t])"

text \<open>Every run of whitespace becomes one space.\<close>

function collapse_ws :: "string \<Rightarrow> string" where
  "collapse_ws [] = []"
| "collapse_ws (c # t) =
     (if py_isspace c then CHR '' '' # collapse_ws (dropWhile py_isspace t) else c # collapse_ws t)"
  by pat_completeness auto
termination
  by (relation "measure length") (auto simp: length_dropWhile_le less_Suc_eq_le)

definition is_digit :: "char \<Rightarrow> bool" where
  "is_digit c = (c \<in> set digits)"

definition is_artifact :: "char \<Rightarrow> bool" where
  "is_artifact c = (c = CHR ''.'' \<or> c = CHR ''-'' \<or> py_isspace c)"

text \<open>\<open>tail_num s\<close>: the text \<open>s\<close> is a run of whitespace, then a run of digits, then
  whitespace or nothing. \<open>cut_page_number\<close> cuts a text at the first position from which
  the rest has that shape.\<close>

definition tail_num :: "string \<Rightarrow> bool" where
  "tail_num s =
     (case s of [] \<Rightarrow> False
      | c # t \<Rightarrow> py_isspace c \<and>
          (case dropWhile py_isspace t of [] \<Rightarrow> False
           | c' # v \<Rightarrow> is_digit c' \<and> list_all py_isspace (dropWhile is_digit v)))"

fun cut_page_number :: "string \<Rightarrow> string" where
  "cut_page_number [] = []"
| "cut_page_number (c # t) = (if tail_num (c # t) then [] else c # cut_page_number t)"

text \<open>The cleaned text, step by step: collapse and trim; cut the page number; strip the
  leading, then the trailing dots, dashes and whitespace.\<close>

definition cleaned :: "string \<Rightarrow> string" where
  "cleaned text0 =
     (let text1 = py_strip (collapse_ws text0);
          text2 = cut_page_number text1;
          text3 = dropWhile is_artifact text2
      in rev (dropWhile is_artifact (rev text3)))"

text \<open>The same with the second step read as ``strip a trailing run of digits''.\<close>

definition digits_stripped :: "string \<Rightarrow> string" where
  "digits_stripped text0 =
     (let text1 = py_strip (collapse_ws text0);
          text2 = rev (dropWhile is_digit (rev text1));
          text3 = dropWhile is_artifact text2
      in rev (dropWhile is_artifact (rev text3)))"

text \<open>A text in which every whitespace character is a single space between two other
  characters or at an end.\<close>

fun spaced :: "string \<Rightarrow> bool" where
  "spaced [] = True"
| "spaced [c] = (py_isspace c \<longrightarrow> c = CHR '' '')"
| "spaced (c # c' # t) = ((py_isspace c \<longrightarrow> c = CHR '' '' \<and> \<not> py_isspace c') \<and> spaced (c' # t))"

subsection \<open>The candidates of a document\<close>

text \<open>The list \<open>headings\<close> of \<open>_extract_headings\<close> as it is before sorting and
  deduplication.\<close>

definition candidate_headings :: "document \<Rightarrow> error + heading list" where
  "candidate_headings doc =
     (let all_text_info = collect_text_info doc
      in if all_text_info = [] then Inr []
         else
           (case mean (map ti_font_size all_text_info) of
              Inl e \<Rightarrow> Inl e
            | Inr avg_font_size \<Rightarrow> collect_headings avg_font_size all_text_info))"

subsection \<open>Sample documents\<close>

text \<open>One line of size 0, so that the mean font size is 0.\<close>

definition doc_zero :: document where
  "doc_zero = \<lparr>metadata = None,
                pages = [[Some [[\<lparr>span_text = ''abc'', span_size = 0, span_flags = 0\<rparr>]]]]\<rparr>"

text \<open>One lower-case line of size 0.\<close>

definition doc_zero_line :: document where
  "doc_zero_line = \<lparr>metadata = None,
     pages = [[Some [[\<lparr>span_text = ''hello world'', span_size = 0, span_flags = 0\<rparr>]]]]\<rparr>"


text \<open>Two pages of two lines each; the first line of the second page repeats a heading
  of the first in capitals.\<close>

definition doc_two_pages :: document where
  "doc_two_pages = \<lparr>metadata = None,
     pages = [[Some [[\<lparr>span_text = ''Methods'', span_size = 12, span_flags = 0\<rparr>],
                     [\<lparr>span_text = ''1. Introduction'', span_size = 12, span_flags = 0\<rparr>]]],
              [Some [[\<lparr>span_text = ''METHODS'', span_size = 12, span_flags = 0\<rparr>],
                     [\<lparr>span_text = ''Results'', span_size = 12, span_flags = 0\<rparr>]]]]\<rparr>"

definition doc_two_pages_outline :: "heading list" where
  "doc_two_pages_outline =
     [\<lparr>h_level = ''H2'', h_text = ''Methods'', h_page = 1\<rparr>,
      \<lparr>h_level = ''H1'', h_text = ''1. Introduction'', h_page = 1\<rparr>,
      \<lparr>h_level = ''H2'', h_text = ''Results'', h_page = 2\<rparr>]"

subsection \<open>Title selection in words\<close>

text \<open>
  The title of the metadata if it is usable; else the first span of the first page that
  has the largest font size of that page, a stripped text longer than 5 and shorter than
  \<open>bound\<close> characters, and a letter in it; else \<open>Untitled Document\<close>.
\<close>

definition metadata_title :: "document \<Rightarrow> string option" where
  "metadata_title doc = (case metadata doc of None \<Rightarrow> None | Some m \<Rightarrow> m ''title'')"

definition first_page_spans :: "document \<Rightarrow> span list" where
  "first_page_spans doc = (case pages doc of [] \<Rightarrow> [] | first_page # _ \<Rightarrow> page_spans first_page)"

definition has_letter :: "string \<Rightarrow> bool" where
  "has_letter s = list_ex (\<lambda>c. c \<in> set (ascii_uppercase @ ascii_lowercase)) s"

definition title_candidate :: "nat \<Rightarrow> document \<Rightarrow> span \<Rightarrow> bool" where
  "title_candidate bound doc sp =
     (span_size sp = Max (set (map span_size (first_page_spans doc))) \<and>
      5 < length (py_strip (span_text sp)) \<and> length (py_strip (span_text sp)) < bound \<and>
      has_letter (py_strip (span_text sp)))"

definition fallback_title :: "nat \<Rightarrow> document \<Rightarrow> string" where
  "fallback_title bound doc =
     (case find (title_candidate bound doc) (first_page_spans doc) of
        Some sp \<Rightarrow> py_strip (span_text sp)
      | None \<Rightarrow> ''Untitled Document'')"

definition selected_title :: "nat \<Rightarrow> document \<Rightarrow> string" where
  "selected_title bound doc =
     (case metadata_title doc of
        None \<Rightarrow> fallback_title bound doc
      | Some t \<Rightarrow>
          if t \<noteq> [] \<and> 1 \<le> length (py_strip t) \<and> length (py_strip t) \<le> 199 then py_strip t
          else fallback_title bound doc)"

text \<open>The same selection over the lines of the first page, each with its joined text and
  largest span size, in place of the spans.\<close>

definition first_page_fragments :: "document \<Rightarrow> text_info list" where
  "first_page_fragments doc =
     (case pages doc of [] \<Rightarrow> []
      | first_page # _ \<Rightarrow> List.map_filter (line_info 0) (page_lines first_page))"

definition fragment_candidate :: "nat \<Rightarrow> document \<Rightarrow> text_info \<Rightarrow> bool" where
  "fragment_candidate bound doc f =
     (ti_font_size f = Max (set (map ti_font_size (first_page_fragments doc))) \<and>
      5 < length (py_strip (ti_text f)) \<and> length (py_strip (ti_text f)) < bound \<and>
      has_letter (py_strip (ti_text f)))"

definition fragment_title :: "nat \<Rightarrow> document \<Rightarrow> string" where
  "fragment_title bound doc =
     (let fallback =
        (case find (fragment_candidate bound doc) (first_page_fragments doc) of
           Some f \<Rightarrow> py_strip (ti_text f)
         | None \<Rightarrow> ''Untitled Document'')
      in case metadata_title doc of
           None \<Rightarrow> fallback
         | Some t \<Rightarrow>
             if t \<noteq> [] \<and> 1 \<le> length (py_strip t) \<and> length (py_strip t) \<le> 199 then py_strip t
             else fallback)"

text \<open>A first page whose only span has 199 characters; a first page whose largest font
  size is shared by a span of digits and the title; a first page whose title line has two
  spans.\<close>

definition doc_split_title :: document where
  "doc_split_title = \<lparr>metadata = None,
     pages = [[Some [[\<lparr>span_text = ''Annual Report '', span_size = 24, span_flags = 0\<rparr>,
                      \<lparr>span_text = ''2024 Edition'', span_size = 24, span_flags = 0\<rparr>]]]]\<rparr>"

definition doc_long_title :: document where
  "doc_long_title = \<lparr>metadata = None,
     pages = [[Some [[\<lparr>span_text = replicate 199 (CHR ''a''), span_size = 24, span_flags = 0\<rparr>]]]]\<rparr>"

definition doc_report :: document where
  "doc_report = \<lparr>metadata = Some Map.empty,
     pages = [[Some [[\<lparr>span_text = ''2024'', span_size = 24, span_flags = 0\<rparr>,
                      \<lparr>span_text = '' Annual Report 2024 '', span_size = 24, span_flags = 0\<rparr>],
                     [\<lparr>span_text = ''A long line of body text'', span_size = 10, span_flags = 0\<rparr>]]]]\<rparr>"

subsection \<open>Lines of letters\<close>

text \<open>The second of the heading patterns, and the texts of C10: 3 to 100 characters, an
  ASCII letter first, and nothing but ASCII letters, whitespace, \<open>&\<close> and \<open>:\<close>.\<close>

definition all_caps_pattern :: regex where
  "all_caps_pattern =
     seqs [Bol, Cls ascii_uppercase, OneOrMore (Cls (ascii_uppercase @ whitespace_chars @ ''&:'')), Eol]"

definition caps_text :: "string \<Rightarrow> bool" where
  "caps_text s =
     (3 \<le> length s \<and> length s \<le> 100 \<and>
      hd s \<in> set (ascii_uppercase @ ascii_lowercase) \<and>
      list_all (\<lambda>c. c \<in> set (ascii_uppercase @ ascii_lowercase @ whitespace_chars @ ''&:'')) s)"

subsection \<open>Plain fragments\<close>




section \<open>The matcher on the patterns of the normalizer\<close>

lemma rests_Seq_Eps: "rests ic (Seq r Epsilon) st = rests ic r st"
proof -
  have "rests ic Epsilon = (\<lambda>st. [st])" by (rule ext) simp
  then show ?thesis by simp
qed

lemma concat_map_Epsilon: "concat (map (rests ic Epsilon) xs) = xs"
  by (induction xs) auto

lemma rests_Star_Cls:
  "cls_match ic cs = P \<Longrightarrow> rests ic (Star (Cls cs)) (False, s) = map (Pair False) (star_sufs P s)"
  by (induction s) auto

lemma star_sufs_hd: "star_sufs P s \<noteq> [] \<and> hd (star_sufs P s) = dropWhile P s"
  by (induction s) auto

lemma rests_Plus_Cls:
  "cls_match ic cs = P \<Longrightarrow> rests ic (OneOrMore (Cls cs)) (b, c # t) =
        (if P c then map (Pair False) (star_sufs P t) else [])"
  by (auto simp add: OneOrMore_def rests_Star_Cls simp del: rests.simps(7))

lemma rests_Plus_Cls_Nil: "rests ic (OneOrMore (Cls cs)) (b, []) = []"
  by (simp add: OneOrMore_def del: rests.simps(7))

lemma concat_map_star_sufs:
  assumes "\<And>c t. P c \<Longrightarrow> f (False, c # t) = []"
  shows "concat (map f (map (Pair False) (star_sufs P s))) = f (False, dropWhile P s)"
  using assms by (induction s) auto

lemma rests_Seq_Star_Cls:
  assumes "cls_match ic cs = P" "\<And>c t. P c \<Longrightarrow> rests ic r (False, c # t) = []"
  shows "rests ic (Seq (Star (Cls cs)) r) (False, s) = rests ic r (False, dropWhile P s)"
  using concat_map_star_sufs[of P "rests ic r" s] assms
  by (simp add: rests_Star_Cls del: rests.simps(7))

lemma rests_Seq_OneOrMore_Cls:
  "cls_match ic cs = P \<Longrightarrow> rests ic (Seq (OneOrMore (Cls cs)) r) (b, c # t) =
        (if P c then rests ic (Seq (Star (Cls cs)) r) (False, t) else [])"
  by (auto simp add: OneOrMore_def simp del: rests.simps(7))

lemma rests_Seq_OneOrMore_Cls_Nil: "rests ic (Seq (OneOrMore (Cls cs)) r) (b, []) = []"
  by (simp add: OneOrMore_def del: rests.simps(7))

lemma star_then_Eol:
  assumes nl: "P (CHR 0x0A)"
  shows "(concat (map (rests ic Eol) (map (Pair False) (star_sufs P s))) \<noteq> [] \<longleftrightarrow> list_all P s) \<and>
         (list_all P s \<longrightarrow> hd (concat (map (rests ic Eol) (map (Pair False) (star_sufs P s)))) = (False, []))"
proof (induction s)
  case Nil
  then show ?case by simp
next
  case (Cons c t)
  show ?case
  proof (cases "P c")
    case True
    then show ?thesis using Cons by (auto simp: hd_append)
  next
    case False
    then have "c \<noteq> CHR 0x0A" using nl by auto
    then show ?thesis using False by auto
  qed
qed

lemma rests_Star_Cls_Eol:
  assumes "cls_match ic cs = P" and nl: "P (CHR 0x0A)"
  shows "(rests ic (Seq (Star (Cls cs)) Eol) (False, s) \<noteq> [] \<longleftrightarrow> list_all P s) \<and>
         (list_all P s \<longrightarrow> hd (rests ic (Seq (Star (Cls cs)) Eol) (False, s)) = (False, []))"
  using star_then_Eol[of P ic s] assms
  by (simp add: rests_Star_Cls del: rests.simps(7))

lemma cls_space: "cls_match False whitespace_chars = py_isspace"
  by (rule ext) (simp add: cls_match_def py_isspace_def)

lemma cls_digit: "cls_match False digits = is_digit"
  by (rule ext) (simp add: cls_match_def is_digit_def)

lemma cls_artifact: "cls_match False (CHR ''.'' # CHR ''-'' # whitespace_chars) = is_artifact"
  by (rule ext) (auto simp add: cls_match_def is_artifact_def py_isspace_def)

lemma space_not_digit: "py_isspace c \<Longrightarrow> \<not> is_digit c"
  by (auto simp: py_isspace_def is_digit_def whitespace_chars_def digits_def)

lemma newline_space: "py_isspace (CHR 0x0A)"
  by (simp add: py_isspace_def whitespace_chars_def)

lemma newline_artifact: "is_artifact (CHR 0x0A)"
  by (simp add: is_artifact_def newline_space)

lemma case_hd: "xs \<noteq> [] \<Longrightarrow> (case xs of [] \<Rightarrow> a | x # _ \<Rightarrow> f x) = f (hd xs)"
  by (cases xs) auto

lemma rests_ws_run:
  "rests False ws_run (b, c # t) = (if py_isspace c then map (Pair False) (star_sufs py_isspace t) else [])"
  "rests False ws_run (b, []) = []"
  by (simp_all add: ws_run_def re_space_def rests_Plus_Cls[OF cls_space] rests_Plus_Cls_Nil del: rests.simps)

lemma re_sub_ws_run: "re_sub_from ws_run '' '' b s = collapse_ws s"
proof (induction s arbitrary: b rule: collapse_ws.induct)
  case 1
  show ?case by (subst re_sub_from.simps) (simp add: rests_ws_run del: rests.simps)
next
  case (2 c t)
  show ?case
  proof (cases "py_isspace c")
    case True
    have ne: "map (Pair False) (star_sufs py_isspace t) \<noteq> []"
      using star_sufs_hd[of py_isspace t] by simp
    have hd: "hd (map (Pair False) (star_sufs py_isspace t)) = (False, dropWhile py_isspace t)"
      using star_sufs_hd[of py_isspace t] by (simp add: hd_map)
    have le: "length (dropWhile py_isspace t) < length (c # t)"
      by (simp add: length_dropWhile_le less_Suc_eq_le)
    show ?thesis
      apply (subst re_sub_from.simps)
      using True le 2(1)[OF True, of False]
      by (simp add: rests_ws_run case_hd[OF ne] hd del: rests.simps)
  next
    case False
    show ?thesis
      apply (subst re_sub_from.simps)
      using False 2(2)[OF False, of False]
      by (simp add: rests_ws_run del: rests.simps)
  qed
qed


lemma rests_Seq_Eps_fun: "rests ic (Seq r Epsilon) = rests ic r"
  by (rule ext) (rule rests_Seq_Eps)

lemma eol_tail_fails_on_digit:
  assumes dg: "is_digit c"
  shows "rests False (Seq (Star (Cls whitespace_chars)) (Seq Eol Epsilon)) (False, c # t) = []"
proof -
  have ns: "\<not> py_isspace c" using dg space_not_digit by blast
  have nn: "c \<noteq> CHR 0x0A" using dg by (auto simp: is_digit_def digits_def)
  have "rests False (Star (Cls whitespace_chars)) (False, c # t) = [(False, c # t)]"
    using ns by (simp add: rests_Star_Cls[OF cls_space] del: rests.simps)
  moreover have "rests False (Seq Eol Epsilon) (False, c # t) = []"
    using nn by (simp add: rests_Seq_Eps)
  ultimately show ?thesis
    by (simp del: rests.simps(2,3,4,6,7))
qed

lemma page_number_tail_unfold:
  "page_number_tail =
     Seq (OneOrMore (Cls whitespace_chars))
       (Seq (OneOrMore (Cls digits)) (Seq (Star (Cls whitespace_chars)) (Seq Eol Epsilon)))"
  by (simp add: page_number_tail_def seqs_def re_space_def re_digit_def)

lemma digits_tail_fails_on_space:
  assumes "py_isspace c"
  shows "rests False (Seq (OneOrMore (Cls digits)) r) (False, c # t) = []"
  using assms space_not_digit by (simp add: rests_Seq_OneOrMore_Cls[OF cls_digit] del: rests.simps)

lemma rests_page_number_tail_Cons:
  "rests False page_number_tail (b, c # t) =
     (if py_isspace c then
        (case dropWhile py_isspace t of
           [] \<Rightarrow> []
         | c' # v \<Rightarrow>
             if is_digit c'
             then rests False (Seq (Star (Cls whitespace_chars)) Eol) (False, dropWhile is_digit v)
             else [])
      else [])"
proof (cases "py_isspace c")
  case False
  then show ?thesis
    by (simp add: page_number_tail_unfold rests_Seq_OneOrMore_Cls[OF cls_space] del: rests.simps)
next
  case True
  let ?R2 = "Seq (Star (Cls whitespace_chars)) (Seq Eol Epsilon)"
  let ?R1 = "Seq (OneOrMore (Cls digits)) ?R2"
  have s1: "rests False page_number_tail (b, c # t) = rests False ?R1 (False, dropWhile py_isspace t)"
    using True rests_Seq_Star_Cls[OF cls_space, where r = "?R1" and s = t] digits_tail_fails_on_space
    by (simp add: page_number_tail_unfold rests_Seq_OneOrMore_Cls[OF cls_space] del: rests.simps)
  show ?thesis
  proof (cases "dropWhile py_isspace t")
    case Nil
    show ?thesis using True
      by (simp add: s1 Nil rests_Seq_OneOrMore_Cls_Nil del: rests.simps)
  next
    case (Cons c' v)
    show ?thesis
    proof (cases "is_digit c'")
      case False
      then show ?thesis using True
        by (simp add: s1 Cons rests_Seq_OneOrMore_Cls[OF cls_digit] del: rests.simps)
    next
      case dg: True
      have "rests False ?R1 (False, c' # v) = rests False ?R2 (False, dropWhile is_digit v)"
        using dg rests_Seq_Star_Cls[OF cls_digit, where r = "?R2" and s = v] eol_tail_fails_on_digit
        by (simp add: rests_Seq_OneOrMore_Cls[OF cls_digit] del: rests.simps)
      also have "\<dots> = rests False (Seq (Star (Cls whitespace_chars)) Eol) (False, dropWhile is_digit v)"
        by (simp add: rests_Seq_Eps_fun del: rests.simps(1,2,3,4,6,7))
      finally show ?thesis using True dg by (simp add: s1 Cons del: rests.simps)
    qed
  qed
qed

lemma rests_page_number_tail:
  "(rests False page_number_tail (b, s) \<noteq> [] \<longleftrightarrow> tail_num s) \<and>
   (tail_num s \<longrightarrow> snd (hd (rests False page_number_tail (b, s))) = [])"
proof (cases s)
  case Nil
  then show ?thesis
    by (simp add: page_number_tail_unfold rests_Seq_OneOrMore_Cls_Nil tail_num_def del: rests.simps)
next
  case (Cons c t)
  note eol = rests_Star_Cls_Eol[OF cls_space newline_space]
  show ?thesis
  proof (cases "py_isspace c")
    case False
    then show ?thesis by (simp add: Cons rests_page_number_tail_Cons tail_num_def del: rests.simps)
  next
    case True
    show ?thesis
    proof (cases "dropWhile py_isspace t")
      case Nil
      then show ?thesis using True
        by (simp add: \<open>s = c # t\<close> Nil rests_page_number_tail_Cons tail_num_def del: rests.simps)
    next
      case dw: (Cons c' v)
      show ?thesis
        using True eol[of "dropWhile is_digit v"]
        by (simp add: \<open>s = c # t\<close> dw rests_page_number_tail_Cons tail_num_def del: rests.simps)
    qed
  qed
qed

lemma re_sub_from_Nil_page: "re_sub_from page_number_tail [] b [] = []"
  using rests_page_number_tail[of b "[]"]
  by (subst re_sub_from.simps) (simp add: tail_num_def del: rests.simps)

lemma re_sub_page_number_tail: "re_sub_from page_number_tail [] b s = cut_page_number s"
proof (induction s arbitrary: b)
  case Nil
  show ?case by (simp add: re_sub_from_Nil_page)
next
  case (Cons c t)
  show ?case
  proof (cases "tail_num (c # t)")
    case True
    have ne: "rests False page_number_tail (b, c # t) \<noteq> []"
      and hd: "snd (hd (rests False page_number_tail (b, c # t))) = []"
      using rests_page_number_tail[of b "c # t"] True by auto
    show ?thesis
      apply (subst re_sub_from.simps)
      using True by (simp add: case_hd[OF ne] hd re_sub_from_Nil_page del: rests.simps)
  next
    case False
    have "rests False page_number_tail (b, c # t) = []"
      using rests_page_number_tail[of b "c # t"] False by auto
    then show ?thesis
      apply (subst re_sub_from.simps)
      using False Cons[of False] by (simp del: rests.simps)
  qed
qed


lemma leading_artifacts_unfold:
  "leading_artifacts = Seq Bol (Seq (OneOrMore (Cls (''.-'' @ whitespace_chars))) Epsilon)"
  by (simp add: leading_artifacts_def seqs_def)

lemma rests_leading_artifacts_mid: "rests False leading_artifacts (False, s) = []"
  by (simp add: leading_artifacts_unfold)

lemma rests_leading_artifacts_start:
  "rests False leading_artifacts (True, c # t) =
     (if is_artifact c then map (Pair False) (star_sufs is_artifact t) else [])"
  "rests False leading_artifacts (True, []) = []"
  by (simp_all add: leading_artifacts_unfold concat_map_Epsilon rests_Plus_Cls[OF cls_artifact]
      rests_Plus_Cls_Nil)

lemma re_sub_leading_mid: "re_sub_from leading_artifacts repl False s = s"
proof (induction s)
  case Nil
  show ?case by (subst re_sub_from.simps) (simp add: rests_leading_artifacts_mid del: rests.simps)
next
  case (Cons c t)
  show ?case using Cons
    by (subst re_sub_from.simps) (simp add: rests_leading_artifacts_mid del: rests.simps)
qed

lemma re_sub_leading_artifacts: "re_sub leading_artifacts [] s = dropWhile is_artifact s"
proof (cases s)
  case Nil
  show ?thesis unfolding re_sub_def Nil
    by (subst re_sub_from.simps) (simp add: rests_leading_artifacts_start del: rests.simps)
next
  case (Cons c t)
  show ?thesis
  proof (cases "is_artifact c")
    case True
    have ne: "map (Pair False) (star_sufs is_artifact t) \<noteq> []"
      using star_sufs_hd[of is_artifact t] by simp
    have hd: "hd (map (Pair False) (star_sufs is_artifact t)) = (False, dropWhile is_artifact t)"
      using star_sufs_hd[of is_artifact t] by (simp add: hd_map)
    have le: "length (dropWhile is_artifact t) < length (c # t)"
      by (simp add: length_dropWhile_le less_Suc_eq_le)
    show ?thesis unfolding re_sub_def Cons
      apply (subst re_sub_from.simps)
      using True le
      by (simp add: rests_leading_artifacts_start case_hd[OF ne] hd re_sub_leading_mid del: rests.simps)
  next
    case False
    show ?thesis unfolding re_sub_def Cons
      apply (subst re_sub_from.simps)
      using False
      by (simp add: rests_leading_artifacts_start re_sub_leading_mid del: rests.simps)
  qed
qed

lemma trailing_artifacts_unfold:
  "trailing_artifacts = Seq (OneOrMore (Cls (''.-'' @ whitespace_chars))) (Seq Eol Epsilon)"
  by (simp add: trailing_artifacts_def seqs_def)

lemma rests_trailing_artifacts_Cons:
  "rests False trailing_artifacts (b, c # t) =
     (if is_artifact c then rests False (Seq (Star (Cls (''.-'' @ whitespace_chars))) Eol) (False, t)
      else [])"
proof -
  have "rests False (Seq (Star (Cls (''.-'' @ whitespace_chars))) (Seq Eol Epsilon)) (False, t) =
        rests False (Seq (Star (Cls (''.-'' @ whitespace_chars))) Eol) (False, t)"
    by (simp add: rests_Seq_Eps_fun del: rests.simps(1,2,3,4,6,7))
  then show ?thesis
    by (simp add: trailing_artifacts_unfold rests_Seq_OneOrMore_Cls[OF cls_artifact] del: rests.simps)
qed

lemma rests_trailing_artifacts:
  "(rests False trailing_artifacts (b, s) \<noteq> [] \<longleftrightarrow> s \<noteq> [] \<and> list_all is_artifact s) \<and>
   (s \<noteq> [] \<and> list_all is_artifact s \<longrightarrow> snd (hd (rests False trailing_artifacts (b, s))) = [])"
proof (cases s)
  case Nil
  then show ?thesis
    by (simp add: trailing_artifacts_unfold rests_Seq_OneOrMore_Cls_Nil del: rests.simps)
next
  case (Cons c t)
  show ?thesis
    using rests_Star_Cls_Eol[OF cls_artifact newline_artifact, of t]
    by (simp add: Cons rests_trailing_artifacts_Cons del: rests.simps)
qed

lemma rstrip_Cons:
  "rev (dropWhile P (rev (c # t))) = (if list_all P (c # t) then [] else c # rev (dropWhile P (rev t)))"
  by (auto simp: dropWhile_append list_all_iff)

lemma re_sub_from_trailing_artifacts:
  "re_sub_from trailing_artifacts [] b s = rev (dropWhile is_artifact (rev s))"
proof (induction s arbitrary: b)
  case Nil
  have "rests False trailing_artifacts (b, []) = []"
    using rests_trailing_artifacts[of b "[]"] by simp
  then show ?case by (subst re_sub_from.simps) (simp del: rests.simps)
next
  case (Cons c t)
  have nil: "re_sub_from trailing_artifacts [] False [] = []"
    using rests_trailing_artifacts[of False "[]"]
    by (subst re_sub_from.simps) (simp del: rests.simps)
  show ?case
  proof (cases "list_all is_artifact (c # t)")
    case True
    have ne: "rests False trailing_artifacts (b, c # t) \<noteq> []"
      and hd: "snd (hd (rests False trailing_artifacts (b, c # t))) = []"
      using rests_trailing_artifacts[of b "c # t"] True by auto
    show ?thesis
      apply (subst re_sub_from.simps)
      apply (subst rstrip_Cons)
      using True by (simp add: case_hd[OF ne] hd nil del: rests.simps)
  next
    case False
    have "rests False trailing_artifacts (b, c # t) = []"
      using rests_trailing_artifacts[of b "c # t"] False by auto
    then show ?thesis
      apply (subst re_sub_from.simps)
      apply (subst rstrip_Cons)
      using False Cons[of False] by (simp del: rests.simps)
  qed
qed

lemma clean_heading_text_steps:
  "clean_heading_text text0 =
     (let text1 = py_strip (collapse_ws text0);
          text2 = cut_page_number text1;
          text3 = dropWhile is_artifact text2;
          text4 = rev (dropWhile is_artifact (rev text3))
      in if length text4 > 2 then Some text4 else None)"
  by (simp add: clean_heading_text_def re_sub_def re_sub_ws_run re_sub_page_number_tail
      re_sub_leading_artifacts[unfolded re_sub_def] re_sub_from_trailing_artifacts Let_def)


lemma clean_heading_text_cleaned:
  "clean_heading_text text0 = (if length (cleaned text0) > 2 then Some (cleaned text0) else None)"
  by (simp add: clean_heading_text_steps cleaned_def Let_def)

lemma collapse_ws_hd: "s \<noteq> [] \<Longrightarrow> \<not> py_isspace (hd s) \<Longrightarrow> collapse_ws s \<noteq> [] \<and> hd (collapse_ws s) = hd s"
  by (cases s) auto

lemma dropWhile_hd: "dropWhile P s \<noteq> [] \<Longrightarrow> \<not> P (hd (dropWhile P s))"
  using hd_dropWhile by blast

lemma spaced_Cons: "spaced (c # s) = ((py_isspace c \<longrightarrow> c = CHR '' '' \<and> (s = [] \<or> \<not> py_isspace (hd s))) \<and> spaced s)"
  by (cases s) auto

lemma spaced_collapse_ws: "spaced (collapse_ws s)"
proof (induction s rule: collapse_ws.induct)
  case 1
  show ?case by simp
next
  case (2 c t)
  show ?case
  proof (cases "py_isspace c")
    case True
    have "collapse_ws (dropWhile py_isspace t) = [] \<or> \<not> py_isspace (hd (collapse_ws (dropWhile py_isspace t)))"
    proof (cases "dropWhile py_isspace t = []")
      case dn: True
      show ?thesis by (simp add: dn)
    next
      case dc: False
      show ?thesis
        using collapse_ws_hd[of "dropWhile py_isspace t"] dropWhile_hd[of py_isspace t] dc by metis
    qed
    then show ?thesis using True 2(1)[OF True] by (simp add: spaced_Cons)
  next
    case False
    then show ?thesis using 2(2)[OF False] by (simp add: spaced_Cons)
  qed
qed

lemma spaced_collapse_id: "spaced s \<Longrightarrow> collapse_ws s = s"
proof (induction s rule: collapse_ws.induct)
  case 1
  show ?case by simp
next
  case (2 c t)
  show ?case
  proof (cases "py_isspace c")
    case True
    then have dw: "dropWhile py_isspace t = t" using 2(3) by (cases t) (auto simp: spaced_Cons)
    show ?thesis using True 2(1)[OF True] 2(3) by (simp add: dw spaced_Cons)
  next
    case False
    then show ?thesis using 2(2)[OF False] 2(3) by (simp add: spaced_Cons)
  qed
qed

lemma spaced_append: "spaced (a @ b) \<Longrightarrow> spaced a \<and> spaced b"
proof (induction a)
  case Nil
  then show ?case by simp
next
  case (Cons c a)
  then show ?case by (cases a) (auto simp: spaced_Cons)
qed

lemma spaced_dropWhile: "spaced s \<Longrightarrow> spaced (dropWhile P s)"
  using spaced_append[of "takeWhile P s" "dropWhile P s"] by simp

lemma rstrip_prefix: "rev (dropWhile P (rev s)) @ rev (takeWhile P (rev s)) = s"
proof -
  have "rev (takeWhile P (rev s) @ dropWhile P (rev s)) = s" by simp
  then show ?thesis by (simp only: rev_append)
qed

lemma spaced_rstrip: "spaced s \<Longrightarrow> spaced (rev (dropWhile P (rev s)))"
  using spaced_append[of "rev (dropWhile P (rev s))" "rev (takeWhile P (rev s))"]
  by (simp only: rstrip_prefix)

lemma cut_page_number_prefix: "\<exists>u. s = cut_page_number s @ u"
  by (induction s) auto

lemma spaced_cut_page_number: "spaced s \<Longrightarrow> spaced (cut_page_number s)"
  using cut_page_number_prefix[of s] spaced_append by metis

lemma spaced_py_strip: "spaced s \<Longrightarrow> spaced (py_strip s)"
  by (simp add: py_strip_def spaced_rstrip spaced_dropWhile)

lemma spaced_cleaned: "spaced (cleaned s)"
  by (simp add: cleaned_def Let_def spaced_rstrip spaced_dropWhile spaced_cut_page_number
      spaced_py_strip spaced_collapse_ws)

lemma rstrip_last: "rev (dropWhile P (rev s)) \<noteq> [] \<Longrightarrow> \<not> P (last (rev (dropWhile P (rev s))))"
proof -
  assume ne: "rev (dropWhile P (rev s)) \<noteq> []"
  then have "dropWhile P (rev s) \<noteq> []" by simp
  then have "\<not> P (hd (dropWhile P (rev s)))" by (rule dropWhile_hd)
  then show ?thesis using ne by (simp add: last_rev)
qed

lemma rstrip_hd:
  assumes "s \<noteq> []" "\<not> P (hd s)"
  shows "rev (dropWhile P (rev s)) \<noteq> [] \<and> hd (rev (dropWhile P (rev s))) = hd s"
proof -
  obtain c t where s: "s = c # t" using assms(1) by (cases s) auto
  have "\<not> list_all P (c # t)" using assms(2) s by simp
  then show ?thesis unfolding s by (subst rstrip_Cons, subst rstrip_Cons) simp
qed

lemma cleaned_ends:
  assumes "cleaned s \<noteq> []"
  shows "\<not> is_artifact (hd (cleaned s)) \<and> \<not> is_artifact (last (cleaned s))"
proof -
  define t3 where "t3 = dropWhile is_artifact (cut_page_number (py_strip (collapse_ws s)))"
  have c: "cleaned s = rev (dropWhile is_artifact (rev t3))"
    by (simp add: cleaned_def t3_def Let_def)
  have ne3: "t3 \<noteq> []" using assms c by auto
  have h3: "\<not> is_artifact (hd t3)" using ne3 unfolding t3_def by (rule dropWhile_hd)
  show ?thesis using rstrip_hd[of t3 is_artifact] rstrip_last[of is_artifact t3] assms ne3 h3 c by simp
qed

lemma dropWhile_id: "s \<noteq> [] \<Longrightarrow> \<not> P (hd s) \<Longrightarrow> dropWhile P s = s"
  by (cases s) auto

lemma rstrip_id: "s \<noteq> [] \<Longrightarrow> \<not> P (last s) \<Longrightarrow> rev (dropWhile P (rev s)) = s"
  using dropWhile_id[of "rev s" P] by (simp add: hd_rev)

lemma space_artifact: "py_isspace c \<Longrightarrow> is_artifact c"
  by (simp add: is_artifact_def)

lemma cleaned_again:
  assumes "cleaned s \<noteq> []"
  shows "cleaned (cleaned s) = rev (dropWhile is_artifact (rev (dropWhile is_artifact (cut_page_number (cleaned s)))))"
proof -
  let ?t = "cleaned s"
  have e: "\<not> is_artifact (hd ?t)" "\<not> is_artifact (last ?t)" using cleaned_ends[OF assms] by auto
  then have w: "\<not> py_isspace (hd ?t)" "\<not> py_isspace (last ?t)" using space_artifact by blast+
  have 1: "collapse_ws ?t = ?t" using spaced_cleaned spaced_collapse_id by blast
  have 2: "py_strip ?t = ?t"
    using dropWhile_id[of "cleaned s" py_isspace] rstrip_id[of "cleaned s" py_isspace] assms w
    by (simp add: py_strip_def)
  show ?thesis by (subst cleaned_def) (simp add: 1 2 Let_def)
qed

lemma cleaned_fixed:
  assumes "cleaned s \<noteq> []" "cut_page_number (cleaned s) = cleaned s"
  shows "cleaned (cleaned s) = cleaned s"
proof -
  have e: "\<not> is_artifact (hd (cleaned s))" "\<not> is_artifact (last (cleaned s))"
    using cleaned_ends[OF assms(1)] by auto
  show ?thesis
    using dropWhile_id[of "cleaned s" is_artifact] rstrip_id[of "cleaned s" is_artifact] assms(1) e
    by (simp add: cleaned_again[OF assms(1)] assms(2))
qed

lemma cut_page_number_length: "cut_page_number s \<noteq> s \<Longrightarrow> length (cut_page_number s) < length s"
  using cut_page_number_prefix[of s] by (metis append_Nil2 length_append less_add_same_cancel1 length_greater_0_conv)

lemma length_rstrip_le: "length (dropWhile P (rev s)) \<le> length s"
  using length_dropWhile_le[of P "rev s"] by simp

lemma cleaned_shorter:
  assumes "cleaned s \<noteq> []" "cut_page_number (cleaned s) \<noteq> cleaned s"
  shows "length (cleaned (cleaned s)) < length (cleaned s)"
proof -
  have "length (cleaned (cleaned s)) \<le> length (dropWhile is_artifact (cut_page_number (cleaned s)))"
    by (simp add: cleaned_again[OF assms(1)] length_rstrip_le)
  also have "\<dots> \<le> length (cut_page_number (cleaned s))" by (rule length_dropWhile_le)
  also have "\<dots> < length (cleaned s)" using cut_page_number_length[OF assms(2)] .
  finally show ?thesis .
qed

section \<open>Upper and lower case\<close>













lemma lowercase_upper: "list_all (\<lambda>c. upper_char c \<in> set ascii_uppercase) ascii_lowercase"
  by code_simp

section \<open>Level precedence of the numbered patterns\<close>

lemma intro_is_numbered_h1: "re_match False numbered_h1 ''1. Introduction''"
  by code_simp

lemma overview_not_numbered_h1: "\<not> re_match False numbered_h1 ''1.1 Overview''"
  by code_simp

lemma overview_is_numbered_h2: "re_match False numbered_h2 ''1.1 Overview''"
  by code_simp

lemma detail_not_numbered_h1: "\<not> re_match False numbered_h1 ''1.1.1 Detail''"
  by code_simp

lemma detail_not_numbered_h2: "\<not> re_match False numbered_h2 ''1.1.1 Detail''"
  by code_simp

lemma detail_is_numbered_h3: "re_match False numbered_h3 ''1.1.1 Detail''"
  by code_simp

lemma intro_matches_pattern:
  "list_ex (\<lambda>pattern. re_match True pattern ''1. Introduction'') heading_patterns"
  by code_simp

lemma overview_matches_pattern:
  "list_ex (\<lambda>pattern. re_match True pattern ''1.1 Overview'') heading_patterns"
  by code_simp

lemma detail_matches_pattern:
  "list_ex (\<lambda>pattern. re_match True pattern ''1.1.1 Detail'') heading_patterns"
  by code_simp

lemma intro_clean: "clean_heading_text ''1. Introduction'' = Some ''1. Introduction''"
  by code_simp

lemma overview_clean: "clean_heading_text ''1.1 Overview'' = Some ''1.1 Overview''"
  by code_simp

lemma detail_clean: "clean_heading_text ''1.1.1 Detail'' = Some ''1.1.1 Detail''"
  by code_simp

text \<open>
  C1. Whatever the font size, the style flags and the average font size,
  \<open>_determine_heading_level\<close> gives \<open>H1\<close> to the text \<open>1. Introduction\<close>, \<open>H2\<close> to
  \<open>1.1 Overview\<close> and \<open>H3\<close> to \<open>1.1.1 Detail\<close>: the numbered patterns are tried before the
  font ratio, the bold flag and the keywords. In the loop of \<open>_extract_headings\<close>, where the
  average is not zero, each of the three lines is a heading and is appended with that
  level.
\<close>

theorem numbered_level_precedence:
  "determine_heading_level ''1. Introduction'' font_size font_flags avg_font_size = Inr ''H1'' \<and>
   determine_heading_level ''1.1 Overview'' font_size font_flags avg_font_size = Inr ''H2'' \<and>
   determine_heading_level ''1.1.1 Detail'' font_size font_flags avg_font_size = Inr ''H3'' \<and>
   (avg_font_size \<noteq> 0 \<longrightarrow>
      classify avg_font_size
        \<lparr>ti_text = ''1. Introduction'', ti_font_size = font_size, ti_font_flags = font_flags,
         ti_page = p\<rparr> =
        Inr (Some \<lparr>h_level = ''H1'', h_text = ''1. Introduction'', h_page = p\<rparr>) \<and>
      classify avg_font_size
        \<lparr>ti_text = ''1.1 Overview'', ti_font_size = font_size, ti_font_flags = font_flags,
         ti_page = p\<rparr> =
        Inr (Some \<lparr>h_level = ''H2'', h_text = ''1.1 Overview'', h_page = p\<rparr>) \<and>
      classify avg_font_size
        \<lparr>ti_text = ''1.1.1 Detail'', ti_font_size = font_size, ti_font_flags = font_flags,
         ti_page = p\<rparr> =
        Inr (Some \<lparr>h_level = ''H3'', h_text = ''1.1.1 Detail'', h_page = p\<rparr>))"
proof -
  have l1: "determine_heading_level ''1. Introduction'' font_size font_flags avg_font_size = Inr ''H1''"
    by (simp add: determine_heading_level_def intro_is_numbered_h1)
  have l2: "determine_heading_level ''1.1 Overview'' font_size font_flags avg_font_size = Inr ''H2''"
    by (simp add: determine_heading_level_def overview_not_numbered_h1 overview_is_numbered_h2)
  have l3: "determine_heading_level ''1.1.1 Detail'' font_size font_flags avg_font_size = Inr ''H3''"
    by (simp add: determine_heading_level_def detail_not_numbered_h1 detail_not_numbered_h2
        detail_is_numbered_h3)
  show ?thesis
    by (simp add: l1 l2 l3 classify_def is_heading_def intro_matches_pattern
        overview_matches_pattern detail_matches_pattern intro_clean overview_clean detail_clean)
qed

theorem numbered_level_precedence_witness:
  "determine_heading_level ''1. Introduction'' 9 0 12 = Inr ''H1'' \<and>
   determine_heading_level ''1.1 Overview'' 30 16 12 = Inr ''H2'' \<and>
   determine_heading_level ''1.1.1 Detail'' 30 16 12 = Inr ''H3'' \<and>
   classify 12 \<lparr>ti_text = ''1.1 Overview'', ti_font_size = 30, ti_font_flags = 16, ti_page = 4\<rparr> =
     Inr (Some \<lparr>h_level = ''H2'', h_text = ''1.1 Overview'', h_page = 4\<rparr>)"
  using numbered_level_precedence [of 9 0 12 4] numbered_level_precedence [of 30 16 12 4]
  by simp
section \<open>The normalizer\<close>

lemma cut_page_number_tail: "tail_num u \<Longrightarrow> length (cut_page_number (a @ u)) \<le> length a"
proof (induction a)
  case Nil
  then show ?case by (cases u) (auto simp: tail_num_def)
next
  case (Cons c a)
  then show ?case by simp
qed

text \<open>
  C7 (as amended). \<open>_clean_heading_text\<close> computes, in this order: every run of whitespace
  collapsed to one space and the text trimmed; the text cut at the first position from
  which the rest is whitespace, then digits, then whitespace or nothing (so a final number
  goes together with the whitespace before it, and only when whitespace stands before
  it); leading and trailing runs of dots, dashes and whitespace stripped. It rejects the
  text exactly when the result has length at most 2.
\<close>

theorem normalizer_steps:
  "clean_heading_text text0 = (if length (cleaned text0) > 2 then Some (cleaned text0) else None) \<and>
   (clean_heading_text text0 = None \<longleftrightarrow> length (cleaned text0) \<le> 2) \<and>
   (tail_num u \<longrightarrow> length (cut_page_number (a @ u)) \<le> length a)"
  by (auto simp add: clean_heading_text_cleaned cut_page_number_tail)

lemma results_clean: "clean_heading_text ''  Results ...  12 '' = Some ''Results''"
  by code_simp

lemma results_cleaned: "cleaned ''  Results ...  12 '' = ''Results''"
  by code_simp

lemma tail_num_12: "tail_num '' 12''"
  by code_simp

theorem normalizer_steps_witness:
  "clean_heading_text ''  Results ...  12 '' = Some ''Results'' \<and>
   tail_num '' 12'' \<and> length (cut_page_number (''Results'' @ '' 12'')) \<le> length ''Results''"
  using normalizer_steps [of "''  Results ...  12 ''" "'' 12''" "''Results''"]
  by (simp add: results_cleaned tail_num_12)

text \<open>The claim as stated, that digits at the end of the text are always stripped, fails
  on a text whose final digits follow a letter.\<close>

theorem trailing_digits_kept:
  "clean_heading_text ''Win95'' = Some ''Win95'' \<and> digits_stripped ''Win95'' = ''Win''"
  by code_simp

lemma cleaned_idempotent_iff:
  assumes "clean_heading_text text0 = Some t"
  shows "clean_heading_text t = Some t \<longleftrightarrow> cut_page_number t = t"
proof -
  have t: "t = cleaned text0" and len: "length (cleaned text0) > 2"
    using assms by (auto simp: clean_heading_text_cleaned split: if_splits)
  have ne: "cleaned text0 \<noteq> []" using len by auto
  show ?thesis
  proof (cases "cut_page_number (cleaned text0) = cleaned text0")
    case True
    then show ?thesis using cleaned_fixed[OF ne True] len
      by (simp add: t clean_heading_text_cleaned)
  next
    case False
    then show ?thesis using cleaned_shorter[OF ne False]
      by (auto simp add: t clean_heading_text_cleaned)
  qed
qed

lemma tail_num_Nil: "\<not> tail_num []"
  by (simp add: tail_num_def)

lemma cut_page_number_fixed: "(cut_page_number t = t) = (\<not> list_ex tail_num (suffixes t))"
  by (induction t) (auto simp: tail_num_Nil)

text \<open>
  C3 (as amended). For a text \<open>t\<close> that the normalizer returned, the normalizer returns
  \<open>t\<close> again exactly when \<open>t\<close> does not itself end in whitespace followed by digits: when
  no suffix of \<open>t\<close> is a run of whitespace, then a run of digits, then whitespace or
  nothing.
\<close>

theorem cleaning_idempotent_without_page_number:
  assumes "clean_heading_text text0 = Some t"
  shows "clean_heading_text t = Some t \<longleftrightarrow> \<not> list_ex tail_num (suffixes t)"
  using cleaned_idempotent_iff [OF assms] by (simp only: cut_page_number_fixed)

lemma results_cut: "cut_page_number ''Results'' = ''Results''"
  by code_simp

lemma results_no_tail: "\<not> list_ex tail_num (suffixes ''Results'')"
  by code_simp

theorem cleaning_idempotent_without_page_number_witness:
  "clean_heading_text ''  Results ...  12 '' = Some ''Results'' \<and>
   clean_heading_text ''Results'' = Some ''Results''"
proof -
  have "clean_heading_text ''Results'' = Some ''Results'' \<longleftrightarrow>
        \<not> list_ex tail_num (suffixes ''Results'')"
    by (rule cleaning_idempotent_without_page_number [OF results_clean])
  then have "clean_heading_text ''Results'' = Some ''Results''"
    using results_no_tail by blast
  with results_clean show ?thesis by (rule conjI)
qed

text \<open>Cleaning is not idempotent on every cleaned text: of two final numbers only the
  last is cut each time.\<close>

theorem cleaning_not_idempotent:
  "clean_heading_text ''Intro 1 2'' = Some ''Intro 1'' \<and>
   clean_heading_text ''Intro 1'' = Some ''Intro''"
  by code_simp

section \<open>The assembled outline\<close>

lemma extract_headings_candidates:
  "extract_headings doc =
     (case candidate_headings doc of Inl e \<Rightarrow> Inl e | Inr hs \<Rightarrow> Inr (assemble hs))"
  by (simp add: extract_headings_def candidate_headings_def Let_def assemble_def split: sum.splits)

lemma subseq_unique_headings: "subseq (unique_headings seen xs) xs"
  by (induction xs arbitrary: seen) auto

lemma set_unique_headings: "set (unique_headings seen xs) \<subseteq> set xs"
  by (induction xs arbitrary: seen) auto

lemma unique_headings_fresh: "h \<in> set (unique_headings seen xs) \<Longrightarrow> text_key h \<notin> seen"
  by (induction xs arbitrary: seen) (auto split: if_splits)

lemma unique_headings_distinct: "distinct (map text_key (unique_headings seen xs))"
proof (induction xs arbitrary: seen)
  case Nil
  show ?case by simp
next
  case (Cons x xs)
  have "text_key x \<notin> text_key ` set (unique_headings (insert (text_key x) seen) xs)"
  proof
    assume "text_key x \<in> text_key ` set (unique_headings (insert (text_key x) seen) xs)"
    then obtain h where h: "h \<in> set (unique_headings (insert (text_key x) seen) xs)"
      and k: "text_key h = text_key x" by auto
    show False using unique_headings_fresh[OF h] k by simp
  qed
  then show ?case using Cons[of seen] Cons[of "insert (text_key x) seen"] by simp
qed

lemma unique_headings_length: "h \<in> set (unique_headings seen xs) \<Longrightarrow> length (h_text h) > 2"
  by (induction xs arbitrary: seen) (auto split: if_splits)

lemma unique_headings_first:
  "\<forall>x\<in>set xs. length (h_text x) > 2 \<Longrightarrow> h \<in> set (unique_headings seen xs) \<Longrightarrow>
     find (\<lambda>x. text_key x = text_key h) xs = Some h"
proof (induction xs arbitrary: seen)
  case Nil
  then show ?case by simp
next
  case (Cons x xs)
  show ?case
  proof (cases "text_key x \<in> seen")
    case True
    then have h: "h \<in> set (unique_headings seen xs)" using Cons.prems(2) by simp
    then have "text_key h \<noteq> text_key x" using unique_headings_fresh[OF h] True by auto
    then show ?thesis using Cons.IH[OF _ h] Cons.prems(1) by auto
  next
    case False
    then have "h = x \<or> h \<in> set (unique_headings (insert (text_key x) seen) xs)"
      using Cons.prems by auto
    then show ?thesis
    proof
      assume "h = x"
      then show ?thesis by simp
    next
      assume h: "h \<in> set (unique_headings (insert (text_key x) seen) xs)"
      then have "text_key h \<noteq> text_key x" using unique_headings_fresh[OF h] by auto
      then show ?thesis using Cons.IH[OF _ h] Cons.prems(1) by auto
    qed
  qed
qed

lemma unique_headings_covers:
  "\<forall>x\<in>set xs. length (h_text x) > 2 \<Longrightarrow> x \<in> set xs \<Longrightarrow>
     text_key x \<in> seen \<or> text_key x \<in> text_key ` set (unique_headings seen xs)"
proof (induction xs arbitrary: seen)
  case Nil
  then show ?case by simp
next
  case (Cons y ys)
  show ?case
  proof (cases "x = y")
    case True
    then show ?thesis using Cons.prems by auto
  next
    case False
    then have x: "x \<in> set ys" using Cons.prems by auto
    have a: "\<forall>x\<in>set ys. length (h_text x) > 2" using Cons.prems by auto
    show ?thesis
      using Cons.IH[OF a x, of seen] Cons.IH[OF a x, of "insert (text_key y) seen"] by auto
  qed
qed

lemma unique_headings_sorted:
  "sorted (map h_page xs) \<Longrightarrow> sorted (map h_page (unique_headings seen xs))"
proof (induction xs arbitrary: seen)
  case Nil
  show ?case by simp
next
  case (Cons x xs)
  have s: "sorted (map h_page xs)" and le: "\<forall>y\<in>set xs. h_page x \<le> h_page y"
    using Cons.prems by auto
  have "\<forall>y\<in>set (unique_headings (insert (text_key x) seen) xs). h_page x \<le> h_page y"
    using le set_unique_headings by blast
  then show ?case using Cons.IH[OF s] by simp
qed

lemma assemble_sorted: "sorted (map h_page (assemble hs))"
  unfolding assemble_def by (rule unique_headings_sorted) simp

lemma assemble_stable:
  "subseq (filter (\<lambda>h. h_page h = p) (assemble hs)) (filter (\<lambda>h. h_page h = p) hs)"
proof -
  have "subseq (filter (\<lambda>h. h_page h = p) (assemble hs))
               (filter (\<lambda>h. h_page h = p) (sort_key h_page hs))"
    unfolding assemble_def using subseq_unique_headings by (simp only: subseq_filter)
  then show ?thesis by (simp only: sort_key_stable)
qed

lemma clean_heading_text_length: "clean_heading_text t = Some ct \<Longrightarrow> length ct > 2"
  by (auto simp: clean_heading_text_def Let_def split: if_splits)

lemma classify_length: "classify avg info = Inr (Some h) \<Longrightarrow> length (h_text h) > 2"
  by (auto simp: classify_def Let_def clean_heading_text_length split: if_splits sum.splits option.splits)

lemma collect_headings_length:
  "collect_headings avg infos = Inr hs \<Longrightarrow> h \<in> set hs \<Longrightarrow> length (h_text h) > 2"
proof (induction infos arbitrary: hs)
  case Nil
  then show ?case by simp
next
  case (Cons info infos)
  then show ?case
    by (auto split: sum.splits option.splits dest: classify_length)
qed

lemma candidate_headings_length:
  "candidate_headings doc = Inr hs \<Longrightarrow> h \<in> set hs \<Longrightarrow> length (h_text h) > 2"
  by (auto simp: candidate_headings_def Let_def split: if_splits sum.splits dest: collect_headings_length)

lemma doc_two_pages_headings: "extract_headings doc_two_pages = Inr doc_two_pages_outline"
  by code_simp

text \<open>
  C5. The headings that \<open>_extract_headings\<close> returns are in ascending order of page, and
  the headings of one page stand in the order in which the loop met them: for every page,
  the returned headings of that page are a subsequence of the candidates of that page.
\<close>

theorem outline_sorted_stable:
  assumes "extract_headings doc = Inr out"
  shows "sorted (map h_page out) \<and>
         (\<exists>cands. candidate_headings doc = Inr cands \<and> out = assemble cands \<and>
            (\<forall>p. subseq (filter (\<lambda>h. h_page h = p) out) (filter (\<lambda>h. h_page h = p) cands)))"
proof -
  obtain cands where c: "candidate_headings doc = Inr cands" and o: "out = assemble cands"
    using assms by (auto simp: extract_headings_candidates split: sum.splits)
  show ?thesis using c o assemble_sorted[of cands] assemble_stable[of _ cands] by blast
qed

theorem outline_sorted_stable_witness:
  "extract_headings doc_two_pages = Inr doc_two_pages_outline \<and>
   sorted (map h_page doc_two_pages_outline)"
proof -
  have "sorted (map h_page doc_two_pages_outline)"
    using outline_sorted_stable [OF doc_two_pages_headings] by blast
  with doc_two_pages_headings show ?thesis by (rule conjI)
qed

text \<open>
  C6. No two returned headings have the same lower-cased, trimmed text; every returned
  heading has a text longer than 2; and each returned heading is the first of the
  page-sorted candidates with its key, every key of a candidate being kept once.
\<close>

theorem outline_deduplicated:
  assumes "extract_headings doc = Inr out"
  shows "distinct (map text_key out) \<and>
         (\<forall>h\<in>set out. length (h_text h) > 2) \<and>
         (\<exists>cands. candidate_headings doc = Inr cands \<and>
            (\<forall>h\<in>set out. find (\<lambda>x. text_key x = text_key h) (sort_key h_page cands) = Some h) \<and>
            text_key ` set cands \<subseteq> text_key ` set out)"
proof -
  obtain cands where c: "candidate_headings doc = Inr cands" and o: "out = assemble cands"
    using assms by (auto simp: extract_headings_candidates split: sum.splits)
  have len: "\<forall>x\<in>set (sort_key h_page cands). length (h_text x) > 2"
    using candidate_headings_length[OF c] by simp
  have 1: "distinct (map text_key out)"
    unfolding o assemble_def by (rule unique_headings_distinct)
  have 2: "\<forall>h\<in>set out. length (h_text h) > 2"
    unfolding o assemble_def using unique_headings_length by blast
  have 3: "\<forall>h\<in>set out. find (\<lambda>x. text_key x = text_key h) (sort_key h_page cands) = Some h"
    unfolding o assemble_def using unique_headings_first[OF len] by blast
  have 4: "text_key ` set cands \<subseteq> text_key ` set out"
  proof
    fix k assume "k \<in> text_key ` set cands"
    then obtain x where x: "x \<in> set (sort_key h_page cands)" and k: "k = text_key x" by auto
    show "k \<in> text_key ` set out"
      unfolding o assemble_def k using unique_headings_covers[OF len x, of "{}"] by simp
  qed
  show ?thesis using 1 2 3 4 c by blast
qed

theorem outline_deduplicated_witness:
  "extract_headings doc_two_pages = Inr doc_two_pages_outline \<and>
   distinct (map text_key doc_two_pages_outline)"
proof -
  have "distinct (map text_key doc_two_pages_outline)"
    using outline_deduplicated [OF doc_two_pages_headings] by blast
  with doc_two_pages_headings show ?thesis by (rule conjI)
qed

section \<open>Failures and empty documents\<close>

lemma doc_zero_fails: "extract_headings doc_zero = Inl ZeroDivisionError"
  by code_simp

text \<open>
  C8. When the document cannot be opened, \<open>extract\<close> does not fail: it returns the title
  \<open>Error processing\<close> followed by the name of the document, and no headings. The same
  result is returned when the extraction of the headings raises.
\<close>

theorem failure_contained:
  "extract_outline name (Inl e) = \<lparr>title = ''Error processing '' @ name, outline = []\<rparr> \<and>
   (extract_headings doc = Inl e \<longrightarrow>
      extract_outline name (Inr doc) = \<lparr>title = ''Error processing '' @ name, outline = []\<rparr>)"
  by (simp add: extract_outline_def)

theorem failure_contained_witness:
  "extract_outline ''broken.pdf'' (Inl FileDataError) =
     \<lparr>title = ''Error processing broken.pdf'', outline = []\<rparr> \<and>
   extract_headings doc_zero = Inl ZeroDivisionError \<and>
   extract_outline ''zero.pdf'' (Inr doc_zero) =
     \<lparr>title = ''Error processing zero.pdf'', outline = []\<rparr>"
  using failure_contained [of "''broken.pdf''" FileDataError doc_zero]
    failure_contained [of "''zero.pdf''" ZeroDivisionError doc_zero]
  by (simp add: doc_zero_fails)





section \<open>Title selection\<close>

lemma rests_Cls_nonempty: "(rests ic (Cls cs) (b, s) \<noteq> []) = (s \<noteq> [] \<and> cls_match ic cs (hd s))"
  by (cases s) auto

lemma re_search_from_letter:
  "re_search_from False re_letter b s = has_letter s"
  by (induction s arbitrary: b) (auto simp: re_letter_def has_letter_def cls_match_def)

lemma re_search_letter: "re_search False re_letter s = has_letter s"
  by (simp add: re_search_def re_search_from_letter)

lemma title_span_candidate:
  "first_page_spans doc = sp0 # sps \<Longrightarrow>
   title_span (fold max (map span_size sps) (span_size sp0)) sp = title_candidate 200 doc sp"
proof -
  assume f: "first_page_spans doc = sp0 # sps"
  have "Max (set (map span_size (first_page_spans doc))) = fold max (map span_size sps) (span_size sp0)"
    unfolding f using Max.set_eq_fold[of "span_size sp0" "map span_size sps"] by simp
  then show ?thesis
    by (simp add: title_span_def title_candidate_def re_search_letter Let_def)
qed

lemma first_page_title_fallback: "first_page_title doc = fallback_title 200 doc"
proof (cases "pages doc")
  case Nil
  then show ?thesis by (simp add: first_page_title_def fallback_title_def first_page_spans_def)
next
  case (Cons fp ps)
  show ?thesis
  proof (cases "page_spans fp")
    case Nil
    then show ?thesis using Cons
      by (simp add: first_page_title_def fallback_title_def first_page_spans_def)
  next
    case sp: (Cons sp0 sps)
    have f: "first_page_spans doc = sp0 # sps" using Cons sp by (simp add: first_page_spans_def)
    have "title_span (fold max (map span_size sps) (span_size sp0)) = title_candidate 200 doc"
      by (rule ext) (rule title_span_candidate[OF f])
    then show ?thesis using Cons sp
      by (simp add: first_page_title_def fallback_title_def first_page_spans_def Let_def)
  qed
qed

text \<open>
  C4 (as amended). \<open>_extract_title\<close> returns the stripped metadata title when the metadata
  has a non-empty title whose stripped length is between 1 and 199; otherwise the stripped
  text of the first span of the first page that has the largest span size of that page, a
  stripped length greater than 5 and less than 200, and an ASCII letter; otherwise
  \<open>Untitled Document\<close>.
\<close>

theorem title_selection: "extract_title doc = selected_title 200 doc"
  by (auto simp add: extract_title_def selected_title_def metadata_title_def first_page_title_fallback
      Suc_le_eq split: option.splits)

lemma doc_report_title: "extract_title doc_report = ''Annual Report 2024''"
  by code_simp

theorem title_selection_witness:
  "extract_title doc_report = ''Annual Report 2024'' \<and> selected_title 200 doc_report = ''Annual Report 2024''"
  using title_selection [of doc_report] by (simp add: doc_report_title)

lemma doc_long_title_code: "extract_title doc_long_title = replicate 199 (CHR ''a'')"
  by code_simp

lemma doc_long_title_spec: "selected_title 199 doc_long_title = ''Untitled Document''"
  by code_simp

text \<open>The claim as stated differs from the code where it says ``strictly between 5 and
  199'' and where it says ``fragments'': a span of 199 characters is returned as the
  title, and of a title line in two spans the first span alone is returned.\<close>

lemma doc_split_title_code: "extract_title doc_split_title = ''Annual Report''"
  by code_simp

lemma doc_split_title_spec:
  "fragment_title 200 doc_split_title = ''Annual Report 2024 Edition'' \<and>
   fragment_title 199 doc_split_title = ''Annual Report 2024 Edition''"
  by code_simp

theorem title_of_length_199:
  "extract_title doc_long_title = replicate 199 (CHR ''a'') \<and>
   selected_title 199 doc_long_title = ''Untitled Document'' \<and>
   extract_title doc_split_title = ''Annual Report'' \<and>
   fragment_title 200 doc_split_title = ''Annual Report 2024 Edition'' \<and>
   fragment_title 199 doc_split_title = ''Annual Report 2024 Edition''"
  using doc_long_title_code doc_long_title_spec doc_split_title_code doc_split_title_spec
  by (intro conjI) simp_all

section \<open>Case-insensitive patterns\<close>

lemma letter_ignorecase:
  "c \<in> set (ascii_uppercase @ ascii_lowercase) \<Longrightarrow> cls_match True ascii_uppercase c"
  using lowercase_upper unfolding list_all_iff by (auto simp: cls_match_def)

lemma allowed_ignorecase:
  "c \<in> set (ascii_uppercase @ ascii_lowercase @ whitespace_chars @ ''&:'') \<Longrightarrow>
   cls_match True (ascii_uppercase @ whitespace_chars @ ''&:'') c"
proof -
  assume "c \<in> set (ascii_uppercase @ ascii_lowercase @ whitespace_chars @ ''&:'')"
  then consider "c \<in> set (ascii_uppercase @ ascii_lowercase)" | "c \<in> set (whitespace_chars @ ''&:'')"
    by auto
  then show ?thesis
  proof cases
    case 1
    then have "cls_match True ascii_uppercase c" by (rule letter_ignorecase)
    then show ?thesis by (auto simp: cls_match_def)
  next
    case 2
    then show ?thesis by (auto simp: cls_match_def)
  qed
qed

lemma newline_allowed: "cls_match True (ascii_uppercase @ whitespace_chars @ ''&:'') (CHR 0x0A)"
  by (simp add: cls_match_def whitespace_chars_def)

lemma all_caps_pattern_unfold:
  "all_caps_pattern =
     Seq Bol (Seq (Cls ascii_uppercase)
       (Seq (OneOrMore (Cls (ascii_uppercase @ whitespace_chars @ ''&:''))) (Seq Eol Epsilon)))"
  by (simp add: all_caps_pattern_def seqs_def)

lemma all_caps_matches:
  assumes "caps_text s"
  shows "re_match True all_caps_pattern s"
proof -
  let ?X = "ascii_uppercase @ whitespace_chars @ ''&:''"
  let ?P = "cls_match True ?X"
  obtain c c' t where s: "s = c # c' # t"
    using assms by (cases s; cases "tl s") (auto simp: caps_text_def)
  have c: "cls_match True ascii_uppercase c"
    using assms s by (auto simp: caps_text_def intro: letter_ignorecase)
  have c': "?P c'" and t: "list_all ?P t"
    using assms s allowed_ignorecase by (auto simp: caps_text_def list_all_iff)
  have tail: "rests True (Seq (Star (Cls ?X)) Eol) (False, t) \<noteq> []"
    using rests_Star_Cls_Eol[OF refl newline_allowed, of t] t by blast
  have "rests True (Seq (Star (Cls ?X)) (Seq Eol Epsilon)) (False, t) =
        rests True (Seq (Star (Cls ?X)) Eol) (False, t)"
    by (simp add: rests_Seq_Eps_fun del: rests.simps(1,2,3,4,6,7))
  then have 1: "rests True (Seq (OneOrMore (Cls ?X)) (Seq Eol Epsilon)) (False, c' # t) \<noteq> []"
    using tail c' by (simp add: rests_Seq_OneOrMore_Cls[OF refl] del: rests.simps)
  have 2: "rests True (Seq (Cls ascii_uppercase) (Seq (OneOrMore (Cls ?X)) (Seq Eol Epsilon))) (False, c # c' # t)
          = rests True (Seq (OneOrMore (Cls ?X)) (Seq Eol Epsilon)) (False, c' # t)"
    using c by (simp del: rests.simps(1,2,3,6,7))
  have 3: "rests True (Seq (Cls ascii_uppercase) (Seq (OneOrMore (Cls ?X)) (Seq Eol Epsilon))) (True, c # c' # t)
          = rests True (Seq (OneOrMore (Cls ?X)) (Seq Eol Epsilon)) (False, c' # t)"
    using c by (simp del: rests.simps(1,2,3,6,7))
  have "rests True all_caps_pattern (True, s) =
        rests True (Seq (OneOrMore (Cls ?X)) (Seq Eol Epsilon)) (False, c' # t)"
    unfolding all_caps_pattern_unfold s
    by (subst rests.simps(5)) (simp add: 3 del: rests.simps(2-7))
  then show ?thesis using 1 by (simp add: re_match_def)
qed

lemma all_caps_in_patterns: "all_caps_pattern \<in> set heading_patterns"
  by (simp add: heading_patterns_def all_caps_pattern_def)

lemma caps_text_is_heading: "caps_text s \<Longrightarrow> is_heading s font_ratio font_flags"
  using all_caps_matches[of s] all_caps_in_patterns
  by (auto simp: is_heading_def list_ex_iff)

lemma if_Inr:
  "(\<exists>l. x = Inr l) \<Longrightarrow> (\<exists>l. y = Inr l) \<Longrightarrow> \<exists>l. (if c then x else y) = Inr l"
  by simp

lemma determine_heading_level_total:
  assumes "avg_font_size \<noteq> 0"
  shows "\<exists>lvl. determine_heading_level text font_size font_flags avg_font_size = Inr lvl"
proof -
  have z: "(avg_font_size = 0) = False" using assms by simp
  show ?thesis
    unfolding determine_heading_level_def Let_def z if_False
    by (intro if_Inr) simp_all
qed

text \<open>
  C10 (as amended). A line of 3 to 100 characters that starts with an ASCII letter and has
  only ASCII letters, whitespace, \<open>&\<close> and \<open>:\<close> is flagged as a heading whatever its font
  ratio and style flags are, lower-case body text included: with \<open>re.IGNORECASE\<close> the
  all-caps pattern matches it. In the loop it is so for every font size, every flag value
  and every average font size other than zero: it is given a level and appended unless the
  normalizer rejects its text. With an average font size of zero the division of the font
  ratio raises before any rule is tried.
\<close>

theorem lowercase_line_is_heading:
  assumes "caps_text text"
  shows "is_heading text font_ratio font_flags \<and>
         (avg_font_size \<noteq> 0 \<longrightarrow>
            (\<exists>lvl. determine_heading_level text font_size font_flags avg_font_size = Inr lvl \<and>
               classify avg_font_size
                 \<lparr>ti_text = text, ti_font_size = font_size, ti_font_flags = font_flags, ti_page = p\<rparr> =
               Inr (map_option (\<lambda>ct. \<lparr>h_level = lvl, h_text = ct, h_page = p\<rparr>)
                      (clean_heading_text text)))) \<and>
         classify 0
           \<lparr>ti_text = text, ti_font_size = font_size, ti_font_flags = font_flags, ti_page = p\<rparr> =
         Inl ZeroDivisionError"
proof -
  have len: "\<not> (length text > 100 \<or> length text < 3)" using assms by (auto simp: caps_text_def)
  have h: "\<And>r. is_heading text r font_flags" using caps_text_is_heading[OF assms] .
  show ?thesis
  proof (intro conjI impI)
    show "is_heading text font_ratio font_flags" by (rule h)
  next
    assume a: "avg_font_size \<noteq> 0"
    obtain lvl where l: "determine_heading_level text font_size font_flags avg_font_size = Inr lvl"
      using determine_heading_level_total[OF a] by blast
    show "\<exists>lvl. determine_heading_level text font_size font_flags avg_font_size = Inr lvl \<and>
               classify avg_font_size
                 \<lparr>ti_text = text, ti_font_size = font_size, ti_font_flags = font_flags, ti_page = p\<rparr> =
               Inr (map_option (\<lambda>ct. \<lparr>h_level = lvl, h_text = ct, h_page = p\<rparr>)
                      (clean_heading_text text))"
      using len a h l by (auto simp: classify_def Let_def split: option.splits)
  next
    show "classify 0
           \<lparr>ti_text = text, ti_font_size = font_size, ti_font_flags = font_flags, ti_page = p\<rparr> =
         Inl ZeroDivisionError"
      using len by (simp add: classify_def Let_def)
  qed
qed

lemma hello_caps_text: "caps_text ''hello world''"
  by code_simp

lemma hello_clean: "clean_heading_text ''hello world'' = Some ''hello world''"
  by code_simp

lemma hello_level: "determine_heading_level ''hello world'' 10 0 10 = Inr ''H3''"
  by code_simp

theorem lowercase_line_is_heading_witness:
  "caps_text ''hello world'' \<and> is_heading ''hello world'' 1 0 \<and>
   classify 10 \<lparr>ti_text = ''hello world'', ti_font_size = 10, ti_font_flags = 0, ti_page = 1\<rparr> =
     Inr (Some \<lparr>h_level = ''H3'', h_text = ''hello world'', h_page = 1\<rparr>) \<and>
   classify 0 \<lparr>ti_text = ''hello world'', ti_font_size = 10, ti_font_flags = 0, ti_page = 1\<rparr> =
     Inl ZeroDivisionError"
  using lowercase_line_is_heading [OF hello_caps_text, of 1 0 10 10 1]
  by (simp add: hello_caps_text hello_clean hello_level)

text \<open>The claim as stated, for every average font size, fails at the average 0: the line
  is not classified, the division raises, and the document gets the error outline.\<close>

lemma doc_zero_line_outline:
  "extract_outline ''x.pdf'' (Inr doc_zero_line) =
     \<lparr>title = ''Error processing x.pdf'', outline = []\<rparr>"
  by code_simp

lemma hello_zero_average:
  "classify 0 \<lparr>ti_text = ''hello world'', ti_font_size = 0, ti_font_flags = 0, ti_page = 1\<rparr> =
     Inl ZeroDivisionError"
  by code_simp

theorem lowercase_line_zero_average:
  "caps_text ''hello world'' \<and>
   classify 0 \<lparr>ti_text = ''hello world'', ti_font_size = 0, ti_font_flags = 0, ti_page = 1\<rparr> =
     Inl ZeroDivisionError \<and>
   extract_outline ''x.pdf'' (Inr doc_zero_line) =
     \<lparr>title = ''Error processing x.pdf'', outline = []\<rparr>"
  using hello_caps_text hello_zero_average doc_zero_line_outline by (intro conjI)

section \<open>Font ratio thresholds\<close>

lemma lit_Nil: "lit [] = Epsilon"
  by (simp add: lit_def seqs_def)






lemma rests_Seq_Epsilon_left: "rests ic (Seq Epsilon r) st = rests ic r st"
  by simp





















end
